theory Spec2Isabelle
  imports Main "HOL-Library.AList"
begin

section \<open>The polling subscriber of lib/pubsub/subscription.js\<close>

text \<open>
  The subscription object is a record of the fields its constructor sets. Every method is a
  function from the subscription to the list of effects it performs on the outside world
  (HTTP requests, emitted events, timers, calls of a caller's callback) and the updated
  subscription. A request carries its continuation as data; the closure the source passes to
  \<^verbatim>\<open>this.request\<close> is the matching \<open>_response\<close> function, run when the transport
  completes. A synchronous \<^verbatim>\<open>throw\<close> is the \<open>Inl\<close> branch of a sum.

  The subscription inherits from the platform's \<^verbatim>\<open>EventEmitter\<close>. \<^verbatim>\<open>emit\<close> is an
  effect, and what a listener does in reply (acknowledging, skipping, removing itself) is a
  later event of the loop below. Two facts of the emitter's own state decide what the
  subscriber does and are kept in the record: how many \<^verbatim>\<open>error\<close> listeners are
  registered, since \<^verbatim>\<open>emit('error', err)\<close> throws \<^verbatim>\<open>err\<close> when there is none, and
  whether the two handlers of \<^verbatim>\<open>listenForEvents_\<close> are still registered, since
  \<^verbatim>\<open>removeAllListeners()\<close> removes them with all the others.
  The source's private methods end in an underscore, which a constant's name cannot:
  \<^verbatim>\<open>startPulling_\<close> is \<open>startPulling\<close>, and likewise \<open>refreshPausedStatus\<close>,
  \<open>decorateMessage\<close> and \<open>formatMessage\<close>.
\<close>

subsection \<open>Values\<close>

text \<open>The argument shapes the library function \<^verbatim>\<open>arrify\<close> distinguishes.\<close>

datatype 'a arrifiable = Undefined | Single 'a | Array "'a list"

fun arrify :: "'a arrifiable \<Rightarrow> 'a list" where
  "arrify Undefined = []"
| "arrify (Single x) = [x]"
| "arrify (Array xs) = xs"

datatype error = Error string

text \<open>
  A JavaScript number as the subscriber uses it: an integer, or \<^verbatim>\<open>Infinity\<close>. Integers
  are the mathematical ones; the rounding of doubles beyond \<open>2^53\<close> is outside the model.
\<close>

datatype number = Num int | Infinity

fun ge_number :: "int \<Rightarrow> number \<Rightarrow> bool" where
  "ge_number n (Num m) = (m \<le> n)"
| "ge_number n Infinity = False"

record innerMessage =
  messageId :: "string option"
  inner_data :: "string option"
  inner_attributes :: "(string \<times> string) list option"

record rawMessage =
  raw_ackId :: string
  raw_message :: "innerMessage option"

record message =
  ackId :: string
  msg_id :: "string option"
  msg_data :: "string option"
  msg_attributes :: "(string \<times> string) list option"

record response =
  receivedMessages :: "rawMessage arrifiable"

subsection \<open>Continuations and effects\<close>

text \<open>
  \<open>StartPulling_cb\<close> is the closure \<^verbatim>\<open>function(err, messages, apiResponse)\<close> of
  \<^verbatim>\<open>startPulling_\<close>; \<open>PullCaller k\<close> is a callback handed to \<^verbatim>\<open>pull\<close> by user code.
  \<open>AutoAck cb messages response\<close> is the closure \<^verbatim>\<open>function(err) { callback(err, messages,
  response) }\<close> of \<^verbatim>\<open>pull\<close>; \<open>AckCaller k\<close> is a callback handed to \<^verbatim>\<open>ack\<close> by user
  code and \<open>Noop\<close> is \<^verbatim>\<open>util.noop\<close>.
\<close>

datatype pull_callback = StartPulling_cb | PullCaller nat

datatype ack_callback = AutoAck pull_callback "message list" response | AckCaller nat | Noop

datatype action =
    Request_pull bool int pull_callback
  | Request_acknowledge "string list" ack_callback
  | Request_delete "nat option"
  | Emit_error error response
  | Emit_message message response
  | SetTimeout int
  | Call_pull_callback nat "error option" "message list option" response
  | Call_ack_callback nat "error option" response
  | Call_delete_callback nat "error option" response

subsection \<open>The subscription\<close>

record subscription =
  autoAck :: bool
  closed :: bool
  interval :: int
  inProgressAckIds :: "(string \<times> bool) list"
  maxInProgress :: number
  messageListeners :: int
  paused :: bool
  errorListeners :: nat
  hooked :: bool

record options =
  opt_autoAck :: "bool option"
  opt_interval :: "int option"
  opt_maxInProgress :: "number option"

record pullOptions =
  returnImmediately :: "bool option"
  maxResults :: "int option"

text \<open>
  The constructor \<^verbatim>\<open>Subscription(pubsub, options)\<close>, its flow-control fields. It ends
  with \<^verbatim>\<open>listenForEvents_()\<close>, which registers the two handlers; no \<^verbatim>\<open>error\<close>
  listener is registered yet.
\<close>

definition Subscription :: "options \<Rightarrow> subscription" where
  "Subscription opts =
     \<lparr> autoAck = (case opt_autoAck opts of Some b \<Rightarrow> b | None \<Rightarrow> False),
       closed = True,
       interval = (case opt_interval opts of Some i \<Rightarrow> i | None \<Rightarrow> 10),
       inProgressAckIds = [],
       maxInProgress = (case opt_maxInProgress opts of Some n \<Rightarrow> n | None \<Rightarrow> Infinity),
       messageListeners = 0,
       paused = False,
       errorListeners = 0,
       hooked = True \<rparr>"

text \<open>
  \<^verbatim>\<open>Subscription.formatMessage_\<close>. The payload text is produced by
  \<^verbatim>\<open>new Buffer(data, 'base64').toString('utf-8')\<close> followed by an attempted
  \<^verbatim>\<open>JSON.parse\<close>; both belong to the platform, so the decoding is the parameter \<open>decode\<close>.
  An empty \<^verbatim>\<open>data\<close> string is falsy and is not copied.
\<close>

definition formatMessage :: "(string \<Rightarrow> string) \<Rightarrow> rawMessage \<Rightarrow> message" where
  "formatMessage decode msg =
     (case raw_message msg of
        None \<Rightarrow>
          \<lparr> ackId = raw_ackId msg, msg_id = None, msg_data = None, msg_attributes = None \<rparr>
      | Some innerMessage \<Rightarrow>
          \<lparr> ackId = raw_ackId msg,
            msg_id = messageId innerMessage,
            msg_data =
              (case inner_data innerMessage of
                 None \<Rightarrow> None
               | Some d \<Rightarrow> if d = [] then None else Some (decode d)),
            msg_attributes = inner_attributes innerMessage \<rparr>)"

text \<open>\<^verbatim>\<open>Object.keys(this.inProgressAckIds).length\<close>\<close>

definition inProgressCount :: "subscription \<Rightarrow> int" where
  "inProgressCount s = int (length (map fst (inProgressAckIds s)))"

text \<open>\<^verbatim>\<open>Subscription.prototype.pull\<close>, up to the request it issues.\<close>

definition pull :: "pullOptions \<Rightarrow> pull_callback \<Rightarrow> subscription \<Rightarrow> action list \<times> subscription" where
  "pull opts callback s =
     (let MAX_EVENTS_LIMIT = 1000;
          maxResults' = (case maxResults opts of Some n \<Rightarrow> n | None \<Rightarrow> MAX_EVENTS_LIMIT)
      in ([Request_pull (case returnImmediately opts of Some b \<Rightarrow> b | None \<Rightarrow> False)
             maxResults' callback], s))"

text \<open>\<^verbatim>\<open>Subscription.prototype.startPulling_\<close>, up to the call of \<^verbatim>\<open>pull\<close>.\<close>

definition startPulling :: "subscription \<Rightarrow> action list \<times> subscription" where
  "startPulling s =
     (if closed s \<or> paused s then ([], s)
      else
        let maxResults' =
              (case maxInProgress s of
                 Num n \<Rightarrow> Some (n - inProgressCount s)
               | Infinity \<Rightarrow> None)
        in pull \<lparr> returnImmediately = Some False, maxResults = maxResults' \<rparr> StartPulling_cb s)"

text \<open>\<^verbatim>\<open>Subscription.prototype.refreshPausedStatus_\<close>\<close>

definition refreshPausedStatus :: "subscription \<Rightarrow> action list \<times> subscription" where
  "refreshPausedStatus s =
     (let isCurrentlyPaused = paused s;
          inProgress = inProgressCount s;
          s' = s\<lparr> paused := ge_number inProgress (maxInProgress s) \<rparr>
      in if isCurrentlyPaused \<and> \<not> paused s' \<and> 0 < messageListeners s'
         then startPulling s'
         else ([], s'))"

text \<open>
  \<^verbatim>\<open>Subscription.prototype.ack\<close>, up to the request it issues. An absent callback is
  \<^verbatim>\<open>util.noop\<close>.
\<close>

definition ack ::
  "string arrifiable \<Rightarrow> ack_callback option \<Rightarrow> subscription \<Rightarrow> error + action list \<times> subscription"
where
  "ack ackIds callback s =
     (let ackIds' = arrify ackIds
      in if length ackIds' = 0
         then Inl (Error ''At least one ID must be specified before it can be acknowledged.'')
         else
           let callback' = (case callback of Some c \<Rightarrow> c | None \<Rightarrow> Noop)
           in Inr ([Request_acknowledge ackIds' callback'], s))"

text \<open>
  \<^verbatim>\<open>this.inProgressAckIds[key] = true\<close> on the plain object \<^verbatim>\<open>{}\<close>: the key becomes an
  own property, except \<^verbatim>\<open>__proto__\<close>, whose assignment goes to the inherited setter and,
  the value not being an object, changes nothing. So \<^verbatim>\<open>__proto__\<close> is never a key of the
  object, and \<^verbatim>\<open>delete\<close> of it, as of any other absent key, changes nothing.
\<close>

definition set_true :: "string \<Rightarrow> (string \<times> bool) list \<Rightarrow> (string \<times> bool) list" where
  "set_true key obj = (if key = ''__proto__'' then obj else AList.update key True obj)"

text \<open>
  \<^verbatim>\<open>Subscription.prototype.decorateMessage_\<close>: the ackId is assigned as a key of
  \<^verbatim>\<open>inProgressAckIds\<close>. The two closures it attaches to the message are \<open>message_ack\<close> and
  \<open>message_skip\<close> below, at the message's ackId.
\<close>

definition decorateMessage :: "message \<Rightarrow> subscription \<Rightarrow> message \<times> subscription" where
  "decorateMessage m s =
     (m, s\<lparr> inProgressAckIds := set_true (ackId m) (inProgressAckIds s) \<rparr>)"

definition message_ack ::
  "string \<Rightarrow> ack_callback option \<Rightarrow> subscription \<Rightarrow> error + action list \<times> subscription"
where
  "message_ack a callback s = ack (Single a) callback s"

definition message_skip :: "string \<Rightarrow> subscription \<Rightarrow> action list \<times> subscription" where
  "message_skip a s =
     refreshPausedStatus (s\<lparr> inProgressAckIds := AList.delete a (inProgressAckIds s) \<rparr>)"

text \<open>\<^verbatim>\<open>messages.map(self.decorateMessage_.bind(self))\<close>, left to right.\<close>

fun decorateAll :: "message list \<Rightarrow> subscription \<Rightarrow> message list \<times> subscription" where
  "decorateAll [] s = ([], s)"
| "decorateAll (m # ms) s =
     (let (m', s1) = decorateMessage m s;
          (ms', s2) = decorateAll ms s1
      in (m' # ms', s2))"

text \<open>
  The emitter's \<^verbatim>\<open>emit('error', err, apiResponse)\<close>: with no \<^verbatim>\<open>error\<close> listener
  registered it throws \<^verbatim>\<open>err\<close>.
\<close>

definition emit_error :: "error \<Rightarrow> response \<Rightarrow> subscription \<Rightarrow> error + action list" where
  "emit_error e apiResponse s =
     (if errorListeners s = 0 then Inl e else Inr [Emit_error e apiResponse])"

text \<open>
  The closure \<^verbatim>\<open>function(err, messages, apiResponse)\<close> of \<^verbatim>\<open>startPulling_\<close>. A
  \<^verbatim>\<open>null\<close> message list is falsy; an empty array is not. When the emitter throws, the
  rest of the closure does not run.
\<close>

definition startPulling_callback ::
  "error option \<Rightarrow> message list option \<Rightarrow> response \<Rightarrow> subscription
     \<Rightarrow> error + action list \<times> subscription"
where
  "startPulling_callback err messages apiResponse s =
     (case (case err of Some e \<Rightarrow> emit_error e apiResponse s | None \<Rightarrow> Inr []) of
        Inl thrown \<Rightarrow> Inl thrown
      | Inr acts1 \<Rightarrow>
          Inr (acts1 @
               (case messages of
                  Some ms \<Rightarrow> map (\<lambda>m. Emit_message m apiResponse) ms
                | None \<Rightarrow> []) @
               [SetTimeout (interval s)], s))"

text \<open>Calling the callback that was handed to \<^verbatim>\<open>pull\<close>.\<close>

fun call_pull_callback ::
  "pull_callback \<Rightarrow> error option \<Rightarrow> message list option \<Rightarrow> response \<Rightarrow> subscription
     \<Rightarrow> error + action list \<times> subscription"
where
  "call_pull_callback StartPulling_cb err messages resp s =
     startPulling_callback err messages resp s"
| "call_pull_callback (PullCaller k) err messages resp s =
     Inr ([Call_pull_callback k err messages resp], s)"

text \<open>Calling the callback that was handed to \<^verbatim>\<open>ack\<close>.\<close>

fun call_ack_callback ::
  "ack_callback \<Rightarrow> error option \<Rightarrow> response \<Rightarrow> subscription
     \<Rightarrow> error + action list \<times> subscription"
where
  "call_ack_callback (AutoAck callback messages response) err resp s =
     call_pull_callback callback err (Some messages) response s"
| "call_ack_callback (AckCaller k) err resp s = Inr ([Call_ack_callback k err resp], s)"
| "call_ack_callback Noop err resp s = Inr ([], s)"

text \<open>The closure \<^verbatim>\<open>function(err, resp)\<close> of \<^verbatim>\<open>ack\<close>, run when the acknowledge
  request completes.\<close>

definition ack_response ::
  "string list \<Rightarrow> ack_callback \<Rightarrow> error option \<Rightarrow> response \<Rightarrow> subscription
     \<Rightarrow> error + action list \<times> subscription"
where
  "ack_response ackIds callback err resp s =
     (let (acts1, s1) =
            (if err = None
             then refreshPausedStatus
                    (s\<lparr> inProgressAckIds := fold AList.delete ackIds (inProgressAckIds s) \<rparr>)
             else ([], s))
      in case call_ack_callback callback err resp s1 of
           Inl thrown \<Rightarrow> Inl thrown
         | Inr (acts2, s2) \<Rightarrow> Inr (acts1 @ acts2, s2))"

text \<open>The closure \<^verbatim>\<open>function(err, response)\<close> of \<^verbatim>\<open>pull\<close>, run when the pull request
  completes.\<close>

definition pull_response ::
  "(string \<Rightarrow> string) \<Rightarrow> pull_callback \<Rightarrow> error option \<Rightarrow> response \<Rightarrow> subscription
     \<Rightarrow> error + action list \<times> subscription"
where
  "pull_response decode callback err response s =
     (case err of
        Some e \<Rightarrow> call_pull_callback callback (Some e) None response s
      | None \<Rightarrow>
          let (messages, s1) =
                decorateAll (map (formatMessage decode) (arrify (receivedMessages response))) s;
              (acts1, s2) = refreshPausedStatus s1
          in if autoAck s2 \<and> length messages \<noteq> 0
             then
               let ackIds = map ackId messages
               in (case ack (Array ackIds) (Some (AutoAck callback messages response)) s2 of
                     Inl thrown \<Rightarrow> Inl thrown
                   | Inr (acts2, s3) \<Rightarrow> Inr (acts1 @ acts2, s3))
             else
               (case call_pull_callback callback None (Some messages) response s2 of
                  Inl thrown \<Rightarrow> Inl thrown
                | Inr (acts2, s3) \<Rightarrow> Inr (acts1 @ acts2, s3)))"

text \<open>The two handlers \<^verbatim>\<open>listenForEvents_\<close> installs.\<close>

definition on_newListener :: "string \<Rightarrow> subscription \<Rightarrow> action list \<times> subscription" where
  "on_newListener event s =
     (if event = ''message''
      then
        let s1 = s\<lparr> messageListeners := messageListeners s + 1 \<rparr>
        in if closed s1 then startPulling (s1\<lparr> closed := False \<rparr>) else ([], s1)
      else ([], s))"

definition on_removeListener :: "string \<Rightarrow> subscription \<Rightarrow> subscription" where
  "on_removeListener event s =
     (if event = ''message''
      then
        let s1 = s\<lparr> messageListeners := messageListeners s - 1 \<rparr>
        in if messageListeners s1 = 0 then s1\<lparr> closed := True \<rparr> else s1
      else s)"

text \<open>
  The emitter's \<^verbatim>\<open>on(event, listener)\<close>: it emits \<^verbatim>\<open>newListener\<close>, which runs the
  handler above while that is registered, and then adds the listener.
\<close>

definition addListener :: "string \<Rightarrow> subscription \<Rightarrow> action list \<times> subscription" where
  "addListener event s =
     (let (acts, s1) = (if hooked s then on_newListener event s else ([], s))
      in (acts,
          if event = ''error'' then s1\<lparr> errorListeners := errorListeners s1 + 1 \<rparr> else s1))"

text \<open>
  The emitter's \<^verbatim>\<open>removeListener(event, listener)\<close> for a registered listener: it
  removes the listener and then emits \<^verbatim>\<open>removeListener\<close>.
\<close>

definition removeListener :: "string \<Rightarrow> subscription \<Rightarrow> subscription" where
  "removeListener event s =
     (let s1 = (if event = ''error'' then s\<lparr> errorListeners := errorListeners s - 1 \<rparr> else s)
      in if hooked s1 then on_removeListener event s1 else s1)"

text \<open>
  The emitter's \<^verbatim>\<open>removeAllListeners()\<close>: while the \<^verbatim>\<open>removeListener\<close> handler is
  registered it is run once for every other registered listener, and reacts to the
  \<^verbatim>\<open>message\<close> ones, of which \<open>messageListeners\<close> are registered; then no listener is
  left, the two handlers of \<^verbatim>\<open>listenForEvents_\<close> included.
\<close>

definition removeAllListeners :: "subscription \<Rightarrow> subscription" where
  "removeAllListeners s =
     (let s1 = (if hooked s
                then (on_removeListener ''message'' ^^ nat (messageListeners s)) s
                else s)
      in s1\<lparr> errorListeners := 0, hooked := False \<rparr>)"

text \<open>\<^verbatim>\<open>Subscription.prototype.delete\<close> and the closure it passes on.\<close>

definition delete :: "nat option \<Rightarrow> subscription \<Rightarrow> action list \<times> subscription" where
  "delete callback s = ([Request_delete callback], s)"

definition delete_response ::
  "nat option \<Rightarrow> error option \<Rightarrow> response \<Rightarrow> subscription \<Rightarrow> action list \<times> subscription"
where
  "delete_response callback err resp s =
     (case err of
        Some e \<Rightarrow>
          ((case callback of Some k \<Rightarrow> [Call_delete_callback k (Some e) resp] | None \<Rightarrow> []), s)
      | None \<Rightarrow>
          ((case callback of Some k \<Rightarrow> [Call_delete_callback k None resp] | None \<Rightarrow> []),
           removeAllListeners (s\<lparr> closed := True \<rparr>)))"

subsection \<open>The event loop\<close>

text \<open>
  What can happen to a subscription between two turns of the event loop: user code
  registers or removes a listener or calls a method, a timer set by the poll loop fires, or
  the transport completes a request and runs its continuation.
\<close>

datatype event =
    NewListener string
  | RemoveListener string
  | Timer
  | PullResponse pull_callback "error option" response
  | AckResponse "string list" ack_callback "error option" response
  | DeleteResponse "nat option" "error option" response
  | CallPull pullOptions nat
  | CallAck "string arrifiable" "nat option"
  | CallSkip string
  | CallDelete "nat option"

fun step ::
  "(string \<Rightarrow> string) \<Rightarrow> event \<Rightarrow> subscription \<Rightarrow> error + action list \<times> subscription"
where
  "step decode (NewListener ev) s = Inr (addListener ev s)"
| "step decode (RemoveListener ev) s = Inr ([], removeListener ev s)"
| "step decode Timer s = Inr (startPulling s)"
| "step decode (PullResponse cb err resp) s = pull_response decode cb err resp s"
| "step decode (AckResponse ackIds cb err resp) s = ack_response ackIds cb err resp s"
| "step decode (DeleteResponse cb err resp) s = Inr (delete_response cb err resp s)"
| "step decode (CallPull opts k) s = Inr (pull opts (PullCaller k) s)"
| "step decode (CallAck ackIds k) s = ack ackIds (map_option AckCaller k) s"
| "step decode (CallSkip a) s = Inr (message_skip a s)"
| "step decode (CallDelete k) s = Inr (delete k s)"

text \<open>
  Only a registered listener can be removed: an \<^verbatim>\<open>error\<close> listener when one is counted,
  and, while the handlers count them, a \<^verbatim>\<open>message\<close> listener when one is counted.
\<close>

fun enabled :: "event \<Rightarrow> subscription \<Rightarrow> bool" where
  "enabled (RemoveListener ev) s =
     ((ev = ''message'' \<and> hooked s \<longrightarrow> 0 < messageListeners s)
      \<and> (ev = ''error'' \<longrightarrow> 0 < errorListeners s))"
| "enabled _ s = True"

inductive reachable :: "(string \<Rightarrow> string) \<Rightarrow> options \<Rightarrow> subscription \<Rightarrow> bool"
  for decode :: "string \<Rightarrow> string" and opts :: options
where
  reach_init: "reachable decode opts (Subscription opts)"
| reach_step: "reachable decode opts s \<Longrightarrow> enabled e s \<Longrightarrow> step decode e s = Inr (acts, s')
         \<Longrightarrow> reachable decode opts s'"

text \<open>Running a list of events from a state, collecting the effects; a throw stops the run.\<close>

fun run ::
  "(string \<Rightarrow> string) \<Rightarrow> event list \<Rightarrow> subscription \<Rightarrow> error + action list \<times> subscription"
where
  "run decode [] s = Inr ([], s)"
| "run decode (e # es) s =
     (case step decode e s of
        Inl thrown \<Rightarrow> Inl thrown
      | Inr (acts, s1) \<Rightarrow>
          (case run decode es s1 of
             Inl thrown \<Rightarrow> Inl thrown
           | Inr (acts', s2) \<Rightarrow> Inr (acts @ acts', s2)))"

subsection \<open>Observing the effects\<close>

fun is_request :: "action \<Rightarrow> bool" where
  "is_request (Request_pull ri n cb) = True"
| "is_request (Request_acknowledge ackIds cb) = True"
| "is_request (Request_delete k) = True"
| "is_request _ = False"

fun is_acknowledge :: "action \<Rightarrow> bool" where
  "is_acknowledge (Request_acknowledge ackIds cb) = True"
| "is_acknowledge _ = False"

text \<open>A pull request whose continuation is the poll loop's own closure.\<close>

fun is_loop_pull :: "action \<Rightarrow> bool" where
  "is_loop_pull (Request_pull ri n StartPulling_cb) = True"
| "is_loop_pull _ = False"


text \<open>
  The \<^verbatim>\<open>maxMessages\<close> a poll-loop pull is expected to carry: the room left under a
  bounded \<^verbatim>\<open>maxInProgress\<close>, counted on the keys of \<^verbatim>\<open>inProgressAckIds\<close>, and the
  ceiling 1000 under an unbounded one.
\<close>

definition room :: "subscription \<Rightarrow> int" where
  "room s =
     (case maxInProgress s of
        Num n \<Rightarrow> n - int (length (inProgressAckIds s))
      | Infinity \<Rightarrow> 1000)"

subsection \<open>The acknowledgment tracker\<close>

text \<open>
  The operations that change \<^verbatim>\<open>inProgressAckIds\<close>: decorating a delivered message tracks
  its ackId; \<^verbatim>\<open>message.skip()\<close> and a successful acknowledge resolve ackIds. The
  completion of a successful acknowledge does not throw.
\<close>

datatype tracker_op =
    Track message
  | ResolveSkip string
  | ResolveAck "string list" ack_callback response

fun apply_op :: "tracker_op \<Rightarrow> subscription \<Rightarrow> subscription" where
  "apply_op (Track m) s = snd (decorateMessage m s)"
| "apply_op (ResolveSkip a) s = snd (message_skip a s)"
| "apply_op (ResolveAck ackIds cb resp) s =
     (case ack_response ackIds cb None resp s of Inl thrown \<Rightarrow> s | Inr (acts, s') \<Rightarrow> s')"

text \<open>The specification's tracker: the set of ackIds tracked and not yet resolved.\<close>

fun spec_outstanding :: "tracker_op \<Rightarrow> string set \<Rightarrow> string set" where
  "spec_outstanding (Track m) S = insert (ackId m) S"
| "spec_outstanding (ResolveSkip a) S = S - {a}"
| "spec_outstanding (ResolveAck ackIds cb resp) S = S - set ackIds"

text \<open>The ackIds a sequence of tracker operations tracks.\<close>

fun tracked_ackIds :: "tracker_op list \<Rightarrow> string list" where
  "tracked_ackIds [] = []"
| "tracked_ackIds (Track m # ops) = ackId m # tracked_ackIds ops"
| "tracked_ackIds (_ # ops) = tracked_ackIds ops"

subsection \<open>Sample inputs\<close>

definition default_options :: options where
  "default_options = \<lparr> opt_autoAck = None, opt_interval = None, opt_maxInProgress = None \<rparr>"

definition autoAck_options :: options where
  "autoAck_options = \<lparr> opt_autoAck = Some True, opt_interval = None, opt_maxInProgress = None \<rparr>"

definition max1_options :: options where
  "max1_options =
     \<lparr> opt_autoAck = None, opt_interval = None, opt_maxInProgress = Some (Num 1) \<rparr>"

definition raw1 :: rawMessage where
  "raw1 = \<lparr> raw_ackId = ''a1'', raw_message = None \<rparr>"

definition raw2 :: rawMessage where
  "raw2 = \<lparr> raw_ackId = ''a2'', raw_message = None \<rparr>"

definition raw_proto :: rawMessage where
  "raw_proto = \<lparr> raw_ackId = ''__proto__'', raw_message = None \<rparr>"

definition msg1 :: message where
  "msg1 = \<lparr> ackId = ''a1'', msg_id = None, msg_data = None, msg_attributes = None \<rparr>"

definition msg2 :: message where
  "msg2 = \<lparr> ackId = ''a2'', msg_id = None, msg_data = None, msg_attributes = None \<rparr>"

definition msg_proto :: message where
  "msg_proto =
     \<lparr> ackId = ''__proto__'', msg_id = None, msg_data = None, msg_attributes = None \<rparr>"

definition response_none :: response where
  "response_none = \<lparr> receivedMessages = Undefined \<rparr>"

definition response_one :: response where
  "response_one = \<lparr> receivedMessages = Array [raw1] \<rparr>"

definition response_two :: response where
  "response_two = \<lparr> receivedMessages = Array [raw1, raw2] \<rparr>"

definition response_proto :: response where
  "response_proto = \<lparr> receivedMessages = Array [raw_proto] \<rparr>"

text \<open>
  Sample subscriptions. With \<^verbatim>\<open>maxInProgress\<close> 1 and a \<^verbatim>\<open>message\<close> listener: before
  and after the delivery of one message, and the latter after its listener was removed.
  With \<^verbatim>\<open>maxInProgress\<close> 3 and a \<^verbatim>\<open>message\<close> listener: one and three messages in
  progress. With the default options: a \<^verbatim>\<open>message\<close> listener only, a \<^verbatim>\<open>message\<close>
  and an \<^verbatim>\<open>error\<close> listener, and after a successful \<^verbatim>\<open>delete\<close>. With
  \<^verbatim>\<open>autoAck\<close>: a \<^verbatim>\<open>message\<close> listener only, and with an \<^verbatim>\<open>error\<close> listener too.
\<close>

definition open_max1 :: subscription where
  "open_max1 =
     \<lparr> autoAck = False, closed = False, interval = 10, inProgressAckIds = [],
       maxInProgress = Num 1, messageListeners = 1, paused = False,
       errorListeners = 0, hooked = True \<rparr>"

definition paused_max1 :: subscription where
  "paused_max1 =
     \<lparr> autoAck = False, closed = False, interval = 10, inProgressAckIds = [(''a1'', True)],
       maxInProgress = Num 1, messageListeners = 1, paused = True,
       errorListeners = 0, hooked = True \<rparr>"

definition paused_closed_max1 :: subscription where
  "paused_closed_max1 =
     \<lparr> autoAck = False, closed = True, interval = 10, inProgressAckIds = [(''a1'', True)],
       maxInProgress = Num 1, messageListeners = 0, paused = True,
       errorListeners = 0, hooked = True \<rparr>"

definition one_of_max3 :: subscription where
  "one_of_max3 =
     \<lparr> autoAck = False, closed = False, interval = 10, inProgressAckIds = [(''a1'', True)],
       maxInProgress = Num 3, messageListeners = 1, paused = False,
       errorListeners = 0, hooked = True \<rparr>"

definition paused_max3 :: subscription where
  "paused_max3 =
     \<lparr> autoAck = False, closed = False, interval = 10,
       inProgressAckIds = [(''a1'', True), (''a2'', True), (''a3'', True)],
       maxInProgress = Num 3, messageListeners = 1, paused = True,
       errorListeners = 0, hooked = True \<rparr>"

definition two_of_max3 :: subscription where
  "two_of_max3 =
     \<lparr> autoAck = False, closed = False, interval = 10,
       inProgressAckIds = [(''a1'', True), (''a3'', True)],
       maxInProgress = Num 3, messageListeners = 1, paused = False,
       errorListeners = 0, hooked = True \<rparr>"

definition open_default :: subscription where
  "open_default =
     \<lparr> autoAck = False, closed = False, interval = 10, inProgressAckIds = [],
       maxInProgress = Infinity, messageListeners = 1, paused = False,
       errorListeners = 0, hooked = True \<rparr>"

definition listening_default :: subscription where
  "listening_default =
     \<lparr> autoAck = False, closed = False, interval = 10, inProgressAckIds = [],
       maxInProgress = Infinity, messageListeners = 1, paused = False,
       errorListeners = 1, hooked = True \<rparr>"

definition deleted_default :: subscription where
  "deleted_default =
     \<lparr> autoAck = False, closed = True, interval = 10, inProgressAckIds = [],
       maxInProgress = Infinity, messageListeners = 0, paused = False,
       errorListeners = 0, hooked = False \<rparr>"

definition open_autoAck :: subscription where
  "open_autoAck =
     \<lparr> autoAck = True, closed = False, interval = 10, inProgressAckIds = [],
       maxInProgress = Infinity, messageListeners = 1, paused = False,
       errorListeners = 0, hooked = True \<rparr>"


section \<open>Basic facts\<close>

lemma startPulling_snd [simp]: "snd (startPulling s) = s"
  by (simp add: startPulling_def pull_def)

lemma refreshPausedStatus_snd:
  "snd (refreshPausedStatus s) = s\<lparr> paused := ge_number (inProgressCount s) (maxInProgress s) \<rparr>"
  by (simp add: refreshPausedStatus_def Let_def)

lemma startPulling_callback_Inr:
  assumes "startPulling_callback err ms r s = Inr (acts, s')"
  shows "s' = s"
    and "acts = (case err of Some e \<Rightarrow> [Emit_error e r] | None \<Rightarrow> []) @
                (case ms of Some xs \<Rightarrow> map (\<lambda>m. Emit_message m r) xs | None \<Rightarrow> []) @
                [SetTimeout (interval s)]"
    and "err = None \<or> 0 < errorListeners s"
  using assms
  by (auto simp: startPulling_callback_def emit_error_def split: option.splits if_splits)

lemma startPulling_callback_handled:
  assumes "err = None \<or> 0 < errorListeners s"
  shows "startPulling_callback err ms r s =
     Inr ((case err of Some e \<Rightarrow> [Emit_error e r] | None \<Rightarrow> []) @
          (case ms of Some xs \<Rightarrow> map (\<lambda>m. Emit_message m r) xs | None \<Rightarrow> []) @
          [SetTimeout (interval s)], s)"
  using assms
  by (auto simp: startPulling_callback_def emit_error_def split: option.splits)

lemma startPulling_callback_unhandled:
  "errorListeners s = 0 \<Longrightarrow> startPulling_callback (Some e) ms r s = Inl e"
  by (simp add: startPulling_callback_def emit_error_def)

lemma call_pull_callback_Inr:
  assumes "call_pull_callback cb err ms r s = Inr (acts, s')"
  shows "s' = s" and "filter is_request acts = []"
  using assms startPulling_callback_Inr [of err ms r s acts s']
  by (cases cb; auto split: option.splits)+

lemma call_pull_callback_handled:
  assumes "err = None \<or> 0 < errorListeners s"
  shows "\<exists>acts. call_pull_callback cb err ms r s = Inr (acts, s)"
  using assms startPulling_callback_handled [of err s ms r]
  by (cases cb) auto

lemma call_ack_callback_Inr:
  assumes "call_ack_callback cb err r s = Inr (acts, s')"
  shows "s' = s" and "filter is_request acts = []"
  using assms call_pull_callback_Inr
  by (cases cb; auto)+

lemma call_ack_callback_handled:
  assumes "err = None \<or> 0 < errorListeners s"
  shows "\<exists>acts. call_ack_callback cb err r s = Inr (acts, s)"
  using assms call_pull_callback_handled
  by (cases cb) auto

lemma decorateAll_fst [simp]: "fst (decorateAll ms s) = ms"
  by (induction ms arbitrary: s) (simp_all add: decorateMessage_def case_prod_unfold)

lemma decorateAll_snd:
  "snd (decorateAll ms s) =
     s\<lparr> inProgressAckIds := fold (\<lambda>m. set_true (ackId m)) ms (inProgressAckIds s) \<rparr>"
  by (induction ms arbitrary: s) (simp_all add: decorateMessage_def case_prod_unfold)

lemma ack_response_snd:
  assumes "ack_response ackIds cb err r s = Inr (acts, s')"
  shows "s' =
     (if err = None
      then snd (refreshPausedStatus
             (s\<lparr> inProgressAckIds := fold AList.delete ackIds (inProgressAckIds s) \<rparr>))
      else s)"
  using assms call_ack_callback_Inr(1)
  by (auto simp: ack_response_def Let_def case_prod_unfold split: sum.splits if_splits)

lemma pull_response_snd:
  assumes "pull_response decode cb err r s = Inr (acts, s')"
  shows "s' =
     (if err = None
      then snd (refreshPausedStatus (snd (decorateAll
             (map (formatMessage decode) (arrify (receivedMessages r))) s)))
      else s)"
proof (cases err)
  case (Some e)
  with assms call_pull_callback_Inr(1) show ?thesis
    by (auto simp: pull_response_def)
next
  case None
  with assms call_pull_callback_Inr(1) show ?thesis
    by (auto simp: pull_response_def ack_def Let_def case_prod_unfold
          split: if_splits sum.splits)
qed

lemma pull_response_success:
  "\<exists>acts s'. pull_response decode cb None r s = Inr (acts, s')"
proof -
  let ?ms = "map (formatMessage decode) (arrify (receivedMessages r))"
  let ?s2 = "snd (refreshPausedStatus (snd (decorateAll ?ms s)))"
  obtain acts where "call_pull_callback cb None (Some ?ms) r ?s2 = Inr (acts, ?s2)"
    using call_pull_callback_handled [of None ?s2 cb "Some ?ms" r] by auto
  then show ?thesis
    by (auto simp: pull_response_def ack_def Let_def case_prod_unfold)
qed

lemma pull_response_throws:
  assumes "pull_response decode cb err r s = Inl thrown"
  shows "err = Some thrown \<and> cb = StartPulling_cb \<and> errorListeners s = 0"
proof (cases err)
  case None
  with assms pull_response_success [of decode cb r s] show ?thesis by auto
next
  case (Some e)
  with assms show ?thesis
    by (cases cb)
       (auto simp: pull_response_def startPulling_callback_def emit_error_def
          split: if_splits)
qed

lemma startPulling_no_acknowledge:
  "filter is_acknowledge (fst (startPulling s)) = []"
  by (simp add: startPulling_def pull_def)

lemma refreshPausedStatus_no_acknowledge:
  "filter is_acknowledge (fst (refreshPausedStatus s)) = []"
  by (simp add: refreshPausedStatus_def Let_def startPulling_no_acknowledge)

lemma is_acknowledge_request: "is_acknowledge a \<Longrightarrow> is_request a"
  by (cases a) simp_all

lemma no_request_no_acknowledge:
  "filter is_request acts = [] \<Longrightarrow> filter is_acknowledge acts = []"
  by (auto simp: filter_empty_conv dest: is_acknowledge_request)

section \<open>Acknowledging\<close>

text \<open>
  C7. Calling \<^verbatim>\<open>ack\<close> with an empty list of ackIds throws synchronously: the result is the
  error and no request has been issued. For every non-empty list nothing is thrown, and the
  one effect is the acknowledge request for exactly these ackIds.
\<close>

theorem ack_empty_list_throws:
  "(arrify ackIds = [] \<longrightarrow>
      ack ackIds callback s =
        Inl (Error ''At least one ID must be specified before it can be acknowledged.''))
   \<and> (arrify ackIds \<noteq> [] \<longrightarrow>
      ack ackIds callback s =
        Inr ([Request_acknowledge (arrify ackIds)
                (case callback of Some c \<Rightarrow> c | None \<Rightarrow> Noop)], s))"
  by (simp add: ack_def)

theorem ack_empty_list_throws_witness:
  "ack (Array []) None (Subscription default_options) =
     Inl (Error ''At least one ID must be specified before it can be acknowledged.'')
   \<and> ack (Array [''a1'', ''a2'']) (Some (AckCaller 0)) (Subscription default_options) =
     Inr ([Request_acknowledge [''a1'', ''a2''] (AckCaller 0)], Subscription default_options)"
  using ack_empty_list_throws [of "Array []" None "Subscription default_options"]
    ack_empty_list_throws [of "Array [''a1'', ''a2'']" "Some (AckCaller 0)"
      "Subscription default_options"]
  by simp

text \<open>
  C6. For a non-empty list of ackIds the acknowledge request is issued; when it fails with a
  transport error, the completion does nothing but call the callback with the error: a
  caller's callback receives the error, the subscription, and with it the set of in-progress
  ackIds, is exactly what it was, and no request (so no retry) is issued.
\<close>

theorem ack_transport_error_keeps_tracking:
  assumes "ackIds \<noteq> []"
  shows "ack (Array ackIds) (Some cb) s = Inr ([Request_acknowledge ackIds cb], s)
       \<and> ack_response ackIds cb (Some e) resp s' = call_ack_callback cb (Some e) resp s'
       \<and> ack_response ackIds (AckCaller k) (Some e) resp s' =
           Inr ([Call_ack_callback k (Some e) resp], s')
       \<and> (\<forall>acts s''. ack_response ackIds cb (Some e) resp s' = Inr (acts, s'') \<longrightarrow>
             s'' = s' \<and> filter is_request acts = [])"
proof -
  have sent: "ack (Array ackIds) (Some cb) s = Inr ([Request_acknowledge ackIds cb], s)"
    using assms by (simp add: ack_def)
  have failed: "ack_response ackIds c (Some e) resp s' = call_ack_callback c (Some e) resp s'"
    for c
    by (simp add: ack_response_def split: sum.splits)
  have kept: "s'' = s' \<and> filter is_request acts = []"
    if "ack_response ackIds cb (Some e) resp s' = Inr (acts, s'')" for acts s''
    using that failed [of cb] call_ack_callback_Inr [of cb "Some e" resp s' acts s'']
    by simp
  show ?thesis
    using sent failed [of cb] failed [of "AckCaller k"] kept
    by simp
qed

theorem ack_transport_error_keeps_tracking_witness:
  "[''a1''] \<noteq> []
   \<and> ack (Array [''a1'']) (Some (AckCaller 7)) paused_max1 =
       Inr ([Request_acknowledge [''a1''] (AckCaller 7)], paused_max1)
   \<and> ack_response [''a1''] (AckCaller 7) (Some (Error ''timeout'')) response_none paused_max1 =
       Inr ([Call_ack_callback 7 (Some (Error ''timeout'')) response_none], paused_max1)
   \<and> inProgressAckIds paused_max1 = [(''a1'', True)]"
proof -
  have ne: "[''a1''] \<noteq> []" by simp
  show ?thesis
    using ack_transport_error_keeps_tracking [OF ne, of "AckCaller 7" paused_max1
        "Error ''timeout''" response_none paused_max1 7]
    by (simp add: paused_max1_def)
qed

section \<open>Pulling\<close>

text \<open>
  C8, as the code has it. When a pull issued by the poll loop fails with a transport error
  while an \<^verbatim>\<open>error\<close> listener is registered, the loop's callback emits an \<^verbatim>\<open>error\<close>
  event carrying the error and then arms the timer with the poll interval; the subscription
  is unchanged. When that timer fires on a subscription that is neither closed nor paused,
  the next pull request is issued.
\<close>

theorem pull_transport_error_keeps_polling:
  "(0 < errorListeners s \<longrightarrow>
      pull_response decode StartPulling_cb (Some e) resp s =
        Inr ([Emit_error e resp, SetTimeout (interval s)], s))
   \<and> (\<not> closed s \<and> \<not> paused s \<longrightarrow>
        (\<exists>n. step decode Timer s = Inr ([Request_pull False n StartPulling_cb], s)))"
  by (simp add: pull_response_def startPulling_callback_def emit_error_def startPulling_def
      pull_def)

theorem pull_transport_error_keeps_polling_witness:
  "0 < errorListeners listening_default
   \<and> pull_response id StartPulling_cb (Some (Error ''ECONNRESET'')) response_none
       listening_default =
     Inr ([Emit_error (Error ''ECONNRESET'') response_none, SetTimeout 10], listening_default)
   \<and> \<not> closed listening_default \<and> \<not> paused listening_default
   \<and> (\<exists>n. step id Timer listening_default =
            Inr ([Request_pull False n StartPulling_cb], listening_default))"
  using pull_transport_error_keeps_polling [of listening_default id "Error ''ECONNRESET''"
      response_none]
  by (simp add: listening_default_def)

text \<open>
  A subscription with a \<^verbatim>\<open>message\<close> listener and no \<^verbatim>\<open>error\<close> listener: the failed
  pull makes the emitter throw the error; nothing is emitted and no timer is armed.
\<close>

theorem pull_transport_error_unhandled_stops:
  "step id (NewListener ''message'') (Subscription default_options) =
     Inr ([Request_pull False 1000 StartPulling_cb], open_default)
   \<and> step id (PullResponse StartPulling_cb (Some (Error ''ECONNRESET'')) response_none)
       open_default = Inl (Error ''ECONNRESET'')"
  by (simp add: addListener_def on_newListener_def startPulling_def pull_def
      pull_response_def startPulling_callback_def emit_error_def
      Subscription_def default_options_def open_default_def)

text \<open>
  C10. With \<^verbatim>\<open>autoAck\<close> enabled, a successful pull whose response holds no message calls
  the pull's callback with the empty message list and issues no acknowledge request. The
  empty-list error of \<^verbatim>\<open>ack\<close> cannot be reached from this path: whatever the response,
  the only error the completion of a pull ever throws is the transport's own, rethrown by
  the emitter from the poll loop's callback when no \<^verbatim>\<open>error\<close> listener is registered.
\<close>

theorem autoAck_empty_pull_no_ack:
  assumes "autoAck s" and "arrify (receivedMessages response) = []"
  shows "(\<exists>acts acts' s'. pull_response decode cb None response s = Inr (acts @ acts', s')
           \<and> call_pull_callback cb None (Some []) response s' = Inr (acts', s')
           \<and> filter is_acknowledge (acts @ acts') = [])
       \<and> (\<forall>cb' err' response' s0 thrown.
             pull_response decode cb' err' response' s0 = Inl thrown \<longrightarrow>
             err' = Some thrown \<and> cb' = StartPulling_cb \<and> errorListeners s0 = 0)"
proof -
  obtain acts s1 where r: "refreshPausedStatus s = (acts, s1)"
    by (cases "refreshPausedStatus s")
  obtain acts' where c: "call_pull_callback cb None (Some []) response s1 = Inr (acts', s1)"
    using call_pull_callback_handled [of None s1 cb "Some []" response] by auto
  have "filter is_acknowledge acts = []"
    using refreshPausedStatus_no_acknowledge [of s] r by simp
  moreover have "filter is_acknowledge acts' = []"
    using call_pull_callback_Inr(2) [OF c] by (rule no_request_no_acknowledge)
  moreover have "pull_response decode cb None response s = Inr (acts @ acts', s1)"
    using assms r c by (simp add: pull_response_def)
  ultimately have called: "\<exists>acts acts' s'.
      pull_response decode cb None response s = Inr (acts @ acts', s')
      \<and> call_pull_callback cb None (Some []) response s' = Inr (acts', s')
      \<and> filter is_acknowledge (acts @ acts') = []"
    using c by (intro exI [of _ acts] exI [of _ acts'] exI [of _ s1]) simp
  have only: "err' = Some thrown \<and> cb' = StartPulling_cb \<and> errorListeners s0 = 0"
    if "pull_response decode cb' err' response' s0 = Inl thrown"
    for cb' err' response' s0 thrown
    using that by (rule pull_response_throws)
  from called only show ?thesis by blast
qed

theorem autoAck_empty_pull_no_ack_witness:
  "autoAck (Subscription autoAck_options)
   \<and> arrify (receivedMessages response_none) = []
   \<and> pull_response id (PullCaller 3) None response_none (Subscription autoAck_options) =
       Inr ([Call_pull_callback 3 None (Some []) response_none], Subscription autoAck_options)"
proof -
  have a: "autoAck (Subscription autoAck_options)"
    by (simp add: Subscription_def autoAck_options_def)
  have b: "arrify (receivedMessages response_none) = []"
    by (simp add: response_none_def)
  have c: "pull_response id (PullCaller 3) None response_none (Subscription autoAck_options) =
       Inr ([Call_pull_callback 3 None (Some []) response_none], Subscription autoAck_options)"
    by (simp add: pull_response_def response_none_def Subscription_def autoAck_options_def
        refreshPausedStatus_def inProgressCount_def)
  from autoAck_empty_pull_no_ack [OF a b, of id "PullCaller 3"] a b c show ?thesis
    by simp
qed

section \<open>The state after a turn of the event loop\<close>

lemma on_removeListener_fields:
  "paused (on_removeListener ev s) = paused s"
  "maxInProgress (on_removeListener ev s) = maxInProgress s"
  "inProgressAckIds (on_removeListener ev s) = inProgressAckIds s"
  "autoAck (on_removeListener ev s) = autoAck s"
  "interval (on_removeListener ev s) = interval s"
  "errorListeners (on_removeListener ev s) = errorListeners s"
  "hooked (on_removeListener ev s) = hooked s"
  "closed s \<Longrightarrow> closed (on_removeListener ev s)"
  "messageListeners (on_removeListener ''message'' s) = messageListeners s - 1"
  by (simp_all add: on_removeListener_def Let_def)

lemma removeListener_funpow_closed:
  "closed s \<Longrightarrow> closed ((on_removeListener ev ^^ n) s)"
  by (induction n) (simp_all add: on_removeListener_fields)

lemma removeListener_funpow_count:
  "messageListeners ((on_removeListener ''message'' ^^ n) s) = messageListeners s - int n"
  by (induction n) (simp_all add: on_removeListener_fields)

lemma removeListener_funpow_rest:
  "paused ((on_removeListener ev ^^ n) s) = paused s
   \<and> maxInProgress ((on_removeListener ev ^^ n) s) = maxInProgress s
   \<and> inProgressAckIds ((on_removeListener ev ^^ n) s) = inProgressAckIds s
   \<and> autoAck ((on_removeListener ev ^^ n) s) = autoAck s
   \<and> interval ((on_removeListener ev ^^ n) s) = interval s"
  by (induction n) (simp_all add: on_removeListener_fields)

lemma removeAllListeners_fields:
  "paused (removeAllListeners s) = paused s"
  "maxInProgress (removeAllListeners s) = maxInProgress s"
  "inProgressAckIds (removeAllListeners s) = inProgressAckIds s"
  "autoAck (removeAllListeners s) = autoAck s"
  "interval (removeAllListeners s) = interval s"
  "errorListeners (removeAllListeners s) = 0"
  "hooked (removeAllListeners s) = False"
  "closed s \<Longrightarrow> closed (removeAllListeners s)"
  "messageListeners (removeAllListeners s) =
     (if hooked s then messageListeners s - int (nat (messageListeners s))
      else messageListeners s)"
  by (simp_all add: removeAllListeners_def Let_def removeListener_funpow_rest
      removeListener_funpow_closed removeListener_funpow_count)

lemma on_newListener_snd:
  "snd (on_newListener ev s) =
     (if ev = ''message''
      then s\<lparr> messageListeners := messageListeners s + 1, closed := False \<rparr>
      else s)"
  by (cases "closed s") (simp_all add: on_newListener_def Let_def)

lemma addListener_snd:
  "snd (addListener ev s) =
     (if ev = ''message'' \<and> hooked s
      then s\<lparr> messageListeners := messageListeners s + 1, closed := False \<rparr>
      else if ev = ''error'' then s\<lparr> errorListeners := errorListeners s + 1 \<rparr>
      else s)"
  using on_newListener_snd [of ev s]
  by (auto simp: addListener_def case_prod_unfold)

lemma step_snd:
  assumes "step decode e s = Inr (acts, s')"
  shows "s' =
    (case e of
       NewListener ev \<Rightarrow> snd (addListener ev s)
     | RemoveListener ev \<Rightarrow> removeListener ev s
     | Timer \<Rightarrow> s
     | PullResponse cb err r \<Rightarrow>
         (if err = None
          then snd (refreshPausedStatus (snd (decorateAll
                 (map (formatMessage decode) (arrify (receivedMessages r))) s)))
          else s)
     | AckResponse ackIds cb err r \<Rightarrow>
         (if err = None
          then snd (refreshPausedStatus
                 (s\<lparr> inProgressAckIds := fold AList.delete ackIds (inProgressAckIds s) \<rparr>))
          else s)
     | DeleteResponse cb err r \<Rightarrow>
         (if err = None then removeAllListeners (s\<lparr> closed := True \<rparr>) else s)
     | CallPull opts k \<Rightarrow> s
     | CallAck ackIds k \<Rightarrow> s
     | CallSkip a \<Rightarrow>
         snd (refreshPausedStatus (s\<lparr> inProgressAckIds := AList.delete a (inProgressAckIds s) \<rparr>))
     | CallDelete k \<Rightarrow> s)"
proof (cases e)
  case (PullResponse cb err r)
  with assms pull_response_snd [of decode cb err r s acts s'] show ?thesis by simp
next
  case (AckResponse ackIds cb err r)
  with assms ack_response_snd [of ackIds cb err r s acts s'] show ?thesis by simp
next
  case (DeleteResponse cb err r)
  with assms show ?thesis by (auto simp: delete_response_def split: option.splits)
next
  case (CallAck ackIds k)
  with assms show ?thesis by (auto simp: ack_def Let_def split: if_splits)
next
  case (NewListener ev)
  with assms show ?thesis by auto
next
  case (CallPull opts k)
  with assms show ?thesis by (auto simp: pull_def)
next
  case (CallSkip a)
  with assms show ?thesis by (auto simp: message_skip_def)
next
  case (CallDelete k)
  with assms show ?thesis by (auto simp: delete_def)
next
  case Timer
  with assms startPulling_snd [of s] show ?thesis by auto
qed (use assms in auto)

lemma step_listeners_inv:
  assumes "step decode e s = Inr (acts, s')" and "enabled e s"
    and "0 \<le> messageListeners s" and "closed s \<longleftrightarrow> messageListeners s = 0"
    and "\<not> hooked s \<longrightarrow> closed s"
  shows "0 \<le> messageListeners s' \<and> (closed s' \<longleftrightarrow> messageListeners s' = 0)
       \<and> (\<not> hooked s' \<longrightarrow> closed s')"
proof (cases e)
  case (DeleteResponse cb err r)
  with assms step_snd [OF assms(1)] show ?thesis
    by (cases err) (simp_all add: removeAllListeners_fields)
next
  case (RemoveListener ev)
  with assms step_snd [OF assms(1)] show ?thesis
    by (auto simp: removeListener_def on_removeListener_def Let_def)
next
  case (NewListener ev)
  with assms step_snd [OF assms(1)] show ?thesis
    by (auto simp: addListener_snd)
qed (use assms step_snd [OF assms(1)] in \<open>auto simp: refreshPausedStatus_snd decorateAll_snd\<close>)

lemma step_maxInProgress:
  assumes "step decode e s = Inr (acts, s')"
  shows "maxInProgress s' = maxInProgress s"
  using step_snd [OF assms]
  by (cases e)
     (auto simp: refreshPausedStatus_snd decorateAll_snd addListener_snd removeListener_def
        on_removeListener_def removeAllListeners_fields Let_def)

lemma step_unbounded_not_paused:
  assumes "step decode e s = Inr (acts, s')"
    and "maxInProgress s = Infinity" and "\<not> paused s"
  shows "\<not> paused s'"
  using step_snd [OF assms(1)] assms(2,3)
  by (cases e)
     (auto simp: refreshPausedStatus_snd decorateAll_snd addListener_snd removeListener_def
        on_removeListener_def removeAllListeners_fields Let_def
        split: if_splits)

lemma reachable_listeners:
  "reachable decode opts s \<Longrightarrow>
     0 \<le> messageListeners s \<and> (closed s \<longleftrightarrow> messageListeners s = 0)
     \<and> (\<not> hooked s \<longrightarrow> closed s)"
proof (induction rule: reachable.induct)
  case reach_init
  show ?case by (simp add: Subscription_def)
next
  case (reach_step s e acts s')
  then show ?case using step_listeners_inv by blast
qed

lemma reachable_unbounded:
  "reachable decode opts s \<Longrightarrow>
     maxInProgress s = (case opt_maxInProgress opts of Some n \<Rightarrow> n | None \<Rightarrow> Infinity)
     \<and> (maxInProgress s = Infinity \<longrightarrow> \<not> paused s)"
proof (induction rule: reachable.induct)
  case reach_init
  show ?case by (simp add: Subscription_def)
next
  case (reach_step s e acts s')
  then show ?case using step_maxInProgress step_unbounded_not_paused by metis
qed

section \<open>The poll loop's pull requests\<close>

lemma room_fields [simp]:
  "room (s\<lparr> paused := p \<rparr>) = room s"
  "room (s\<lparr> closed := c \<rparr>) = room s"
  "room (s\<lparr> messageListeners := l \<rparr>) = room s"
  "room (s\<lparr> errorListeners := n \<rparr>) = room s"
  "room (s\<lparr> hooked := h \<rparr>) = room s"
  by (simp_all add: room_def cong: number.case_cong)

lemma startPulling_fst:
  "fst (startPulling s) =
     (if closed s \<or> paused s then [] else [Request_pull False (room s) StartPulling_cb])"
  by (cases "maxInProgress s")
     (simp_all add: startPulling_def pull_def inProgressCount_def room_def)

lemma refreshPausedStatus_fst:
  "fst (refreshPausedStatus s) =
     (if paused s \<and> \<not> ge_number (int (length (inProgressAckIds s))) (maxInProgress s)
           \<and> 0 < messageListeners s \<and> \<not> closed s
      then [Request_pull False (room s) StartPulling_cb]
      else [])"
  by (simp add: refreshPausedStatus_def Let_def startPulling_fst inProgressCount_def)

lemma on_newListener_fst:
  "fst (on_newListener ev s) =
     (if ev = ''message'' \<and> closed s \<and> \<not> paused s
      then [Request_pull False (room s) StartPulling_cb]
      else [])"
  by (simp add: on_newListener_def Let_def startPulling_fst)

lemma addListener_fst:
  "fst (addListener ev s) =
     (if ev = ''message'' \<and> hooked s \<and> closed s \<and> \<not> paused s
      then [Request_pull False (room s) StartPulling_cb]
      else [])"
  by (auto simp: addListener_def case_prod_unfold Let_def on_newListener_fst)

lemma call_pull_callback_no_loop_pull:
  "call_pull_callback cb err ms r s = Inr (acts, s') \<Longrightarrow> filter is_loop_pull acts = []"
  by (cases cb)
     (auto simp: startPulling_callback_def emit_error_def split: option.splits if_splits)

lemma call_ack_callback_no_loop_pull:
  "call_ack_callback cb err r s = Inr (acts, s') \<Longrightarrow> filter is_loop_pull acts = []"
  using call_pull_callback_no_loop_pull by (cases cb) auto

lemma pull_response_loop_pulls:
  assumes "pull_response decode cb err r s = Inr (acts, s')"
  shows "filter is_loop_pull acts =
     (if err = None
      then filter is_loop_pull (fst (refreshPausedStatus (snd (decorateAll
             (map (formatMessage decode) (arrify (receivedMessages r))) s))))
      else [])"
proof (cases err)
  case (Some e)
  with assms call_pull_callback_no_loop_pull [of cb "Some e" None r s acts s'] show ?thesis
    by (auto simp: pull_response_def)
next
  case None
  with assms call_pull_callback_no_loop_pull show ?thesis
    by (auto simp: pull_response_def ack_def Let_def case_prod_unfold
          split: if_splits sum.splits)
qed

lemma ack_response_loop_pulls:
  assumes "ack_response ackIds cb err r s = Inr (acts, s')"
  shows "filter is_loop_pull acts =
     (if err = None
      then filter is_loop_pull (fst (refreshPausedStatus
             (s\<lparr> inProgressAckIds := fold AList.delete ackIds (inProgressAckIds s) \<rparr>)))
      else [])"
  using assms call_ack_callback_no_loop_pull
  by (auto simp: ack_response_def Let_def case_prod_unfold split: sum.splits if_splits)

lemma step_loop_pulls:
  assumes "step decode e s = Inr (acts, s')"
  shows "filter is_loop_pull acts =
    (case e of
       NewListener ev \<Rightarrow> fst (addListener ev s)
     | Timer \<Rightarrow> fst (startPulling s)
     | PullResponse cb err r \<Rightarrow>
         (if err = None
          then fst (refreshPausedStatus (snd (decorateAll
                 (map (formatMessage decode) (arrify (receivedMessages r))) s)))
          else [])
     | AckResponse ackIds cb err r \<Rightarrow>
         (if err = None
          then fst (refreshPausedStatus
                 (s\<lparr> inProgressAckIds := fold AList.delete ackIds (inProgressAckIds s) \<rparr>))
          else [])
     | CallSkip a \<Rightarrow>
         fst (refreshPausedStatus (s\<lparr> inProgressAckIds := AList.delete a (inProgressAckIds s) \<rparr>))
     | _ \<Rightarrow> [])"
proof (cases e)
  case (NewListener ev)
  with assms have "acts = fst (addListener ev s)" by auto
  with NewListener show ?thesis by (simp add: addListener_fst)
next
  case (RemoveListener ev)
  with assms show ?thesis by auto
next
  case Timer
  with assms have "acts = fst (startPulling s)" by auto
  with Timer show ?thesis by (simp add: startPulling_fst)
next
  case (PullResponse cb err r)
  with assms pull_response_loop_pulls [of decode cb err r s acts s'] show ?thesis
    by (simp add: refreshPausedStatus_fst)
next
  case (AckResponse ackIds cb err r)
  with assms ack_response_loop_pulls [of ackIds cb err r s acts s'] show ?thesis
    by (auto simp: refreshPausedStatus_fst)
next
  case (DeleteResponse cb err r)
  with assms show ?thesis
    by (auto simp: delete_response_def split: option.splits)
next
  case (CallPull opts k)
  with assms show ?thesis by (auto simp: pull_def)
next
  case (CallAck ackIds k)
  with assms show ?thesis by (auto simp: ack_def Let_def split: if_splits)
next
  case (CallSkip a)
  with assms have "acts = fst (refreshPausedStatus
      (s\<lparr> inProgressAckIds := AList.delete a (inProgressAckIds s) \<rparr>))"
    by (auto simp: message_skip_def)
  with CallSkip show ?thesis by (simp add: refreshPausedStatus_fst)
next
  case (CallDelete k)
  with assms show ?thesis by (auto simp: delete_def)
qed

lemma startPulling_pulls_room:
  "a \<in> set (fst (startPulling t)) \<Longrightarrow> a = Request_pull False (room t) StartPulling_cb"
  by (simp add: startPulling_fst split: if_splits)

lemma refreshPausedStatus_pulls_room:
  "a \<in> set (fst (refreshPausedStatus t)) \<Longrightarrow>
     a = Request_pull False (room (snd (refreshPausedStatus t))) StartPulling_cb"
  by (simp add: refreshPausedStatus_fst refreshPausedStatus_snd split: if_splits)

lemma addListener_pulls_room:
  "a \<in> set (fst (addListener ev t)) \<Longrightarrow>
     a = Request_pull False (room (snd (addListener ev t))) StartPulling_cb"
  by (simp add: addListener_fst addListener_snd split: if_splits)

lemma step_loop_pulls_room:
  assumes "step decode e s = Inr (acts, s')" and "a \<in> set (filter is_loop_pull acts)"
  shows "a = Request_pull False (room s') StartPulling_cb"
proof (cases e)
  case (NewListener ev)
  with step_loop_pulls [OF assms(1)] step_snd [OF assms(1)] assms(2)
  show ?thesis using addListener_pulls_room [of a ev s] by simp
next
  case Timer
  with step_loop_pulls [OF assms(1)] step_snd [OF assms(1)] assms(2)
  show ?thesis using startPulling_pulls_room [of a s] by simp
next
  case (PullResponse cb err r)
  with step_loop_pulls [OF assms(1)] step_snd [OF assms(1)] assms(2)
  show ?thesis
    using refreshPausedStatus_pulls_room [of a "snd (decorateAll
      (map (formatMessage decode) (arrify (receivedMessages r))) s)"]
    by (cases err) simp_all
next
  case (AckResponse ackIds cb err r)
  with step_loop_pulls [OF assms(1)] step_snd [OF assms(1)] assms(2)
  show ?thesis
    using refreshPausedStatus_pulls_room [of a
      "s\<lparr> inProgressAckIds := fold AList.delete ackIds (inProgressAckIds s) \<rparr>"]
    by (cases err) simp_all
next
  case (CallSkip k)
  with step_loop_pulls [OF assms(1)] step_snd [OF assms(1)] assms(2)
  show ?thesis
    using refreshPausedStatus_pulls_room [of a
      "s\<lparr> inProgressAckIds := AList.delete k (inProgressAckIds s) \<rparr>"]
    by simp
qed (use step_loop_pulls [OF assms(1)] assms(2) in simp_all)

text \<open>
  C4. A call of \<^verbatim>\<open>startPulling_\<close> on a subscription that is neither closed nor paused
  issues one pull request, with \<^verbatim>\<open>returnImmediately\<close> false and \<^verbatim>\<open>maxMessages\<close> equal
  to \<^verbatim>\<open>maxInProgress\<close> minus the number of keys of \<^verbatim>\<open>inProgressAckIds\<close> when
  \<^verbatim>\<open>maxInProgress\<close> is bounded, and to 1000 when it is unbounded. Every pull request the
  poll loop issues in any turn of the event loop has this form, the keys counted being those
  of the subscription when the request is issued.
\<close>

theorem poll_pull_maxMessages:
  "startPulling s =
     (if closed s \<or> paused s then []
      else [Request_pull False
              (case maxInProgress s of
                 Num n \<Rightarrow> n - int (length (inProgressAckIds s))
               | Infinity \<Rightarrow> 1000)
              StartPulling_cb], s)
   \<and> (step decode e s = Inr (acts, s') \<longrightarrow>
        (\<forall>ri n. Request_pull ri n StartPulling_cb \<in> set acts \<longrightarrow>
           ri = False
           \<and> n = (case maxInProgress s' of
                    Num m \<Rightarrow> m - int (length (inProgressAckIds s'))
                  | Infinity \<Rightarrow> 1000)))"
proof -
  have one: "startPulling s =
     (if closed s \<or> paused s then [] else [Request_pull False (room s) StartPulling_cb], s)"
    by (cases "maxInProgress s")
       (simp_all add: startPulling_def pull_def inProgressCount_def room_def)
  have all: "ri = False \<and> n = room s'"
    if st: "step decode e s = Inr (acts, s')" and mem: "Request_pull ri n StartPulling_cb \<in> set acts"
    for ri n
  proof -
    from mem have "Request_pull ri n StartPulling_cb \<in> set (filter is_loop_pull acts)"
      by simp
    from step_loop_pulls_room [OF st this] show ?thesis by simp
  qed
  from one all show ?thesis
    unfolding room_def by blast
qed

lemma step_skip_max3:
  "step id (CallSkip ''a2'') paused_max3 =
     Inr ([Request_pull False 1 StartPulling_cb], two_of_max3)"
  by (simp add: message_skip_def refreshPausedStatus_def inProgressCount_def startPulling_def
      pull_def paused_max3_def two_of_max3_def)

theorem poll_pull_maxMessages_witness:
  "startPulling one_of_max3 = ([Request_pull False 2 StartPulling_cb], one_of_max3)
   \<and> startPulling paused_max3 = ([], paused_max3)
   \<and> startPulling open_autoAck = ([Request_pull False 1000 StartPulling_cb], open_autoAck)
   \<and> step id (CallSkip ''a2'') paused_max3 =
       Inr ([Request_pull False 1 StartPulling_cb], two_of_max3)
   \<and> Request_pull False 1 StartPulling_cb \<in> set [Request_pull False 1 StartPulling_cb]
   \<and> maxInProgress two_of_max3 = Num 3
   \<and> int (length (inProgressAckIds two_of_max3)) = 2"
proof -
  have computed:
    "startPulling one_of_max3 = ([Request_pull False 2 StartPulling_cb], one_of_max3)"
    "startPulling open_autoAck = ([Request_pull False 1000 StartPulling_cb], open_autoAck)"
    by (simp_all add: startPulling_def pull_def inProgressCount_def one_of_max3_def
        open_autoAck_def)
  show ?thesis
    using poll_pull_maxMessages [of paused_max3 id "CallSkip ''a2''"
        "[Request_pull False 1 StartPulling_cb]" two_of_max3]
      poll_pull_maxMessages [of one_of_max3 id Timer "[]" one_of_max3]
      poll_pull_maxMessages [of open_autoAck id Timer "[]" open_autoAck]
      step_skip_max3 computed
    by (simp add: paused_max3_def two_of_max3_def)
qed

section \<open>Sample runs\<close>

lemma reachable_open_max1: "reachable id max1_options open_max1"
proof -
  have "step id (NewListener ''message'') (Subscription max1_options) =
      Inr ([Request_pull False 1 StartPulling_cb], open_max1)"
    by (simp add: addListener_def on_newListener_def startPulling_def pull_def
        inProgressCount_def Subscription_def max1_options_def open_max1_def)
  with reach_init [of id max1_options] _ show ?thesis
    by (rule reach_step) simp
qed

lemma step_deliver_max1:
  "step id (PullResponse StartPulling_cb None response_one) open_max1 =
     Inr ([Emit_message msg1 response_one, SetTimeout 10], paused_max1)"
  by (simp add: pull_response_def response_one_def raw1_def msg1_def formatMessage_def
      decorateMessage_def set_true_def refreshPausedStatus_def inProgressCount_def
      startPulling_callback_def open_max1_def paused_max1_def)

lemma reachable_paused_max1: "reachable id max1_options paused_max1"
  using reachable_open_max1 _ step_deliver_max1 by (rule reach_step) simp

section \<open>Flow control\<close>

text \<open>
  C3. On a subscription reached from its construction that is paused and has at least one
  message listener: when a \<^verbatim>\<open>skip\<close>, or the successful completion of an acknowledge,
  brings the number of in-progress ackIds strictly below \<^verbatim>\<open>maxInProgress\<close>, the
  subscription is no longer paused and a pull request is issued in that same turn, not by a
  timer. A subscription whose \<^verbatim>\<open>maxInProgress\<close> is unbounded is never paused.
\<close>

theorem ack_or_skip_resumes_paused:
  assumes "reachable decode opts s"
  shows "(paused s \<and> 0 < messageListeners s \<and> maxInProgress s = Num m
            \<and> int (length (AList.delete a (inProgressAckIds s))) < m \<longrightarrow>
          message_skip a s =
            ([Request_pull False (m - int (length (AList.delete a (inProgressAckIds s))))
                StartPulling_cb],
             s\<lparr> inProgressAckIds := AList.delete a (inProgressAckIds s), paused := False \<rparr>))
       \<and> (paused s \<and> 0 < messageListeners s \<and> maxInProgress s = Num m
            \<and> int (length (fold AList.delete ackIds (inProgressAckIds s))) < m \<longrightarrow>
          (\<exists>acts.
             call_ack_callback cb None resp
                 (s\<lparr> inProgressAckIds := fold AList.delete ackIds (inProgressAckIds s),
                     paused := False \<rparr>) =
               Inr (acts,
                    s\<lparr> inProgressAckIds := fold AList.delete ackIds (inProgressAckIds s),
                        paused := False \<rparr>)
             \<and> ack_response ackIds cb None resp s =
               Inr (Request_pull False
                      (m - int (length (fold AList.delete ackIds (inProgressAckIds s))))
                      StartPulling_cb # acts,
                    s\<lparr> inProgressAckIds := fold AList.delete ackIds (inProgressAckIds s),
                        paused := False \<rparr>)))
       \<and> (maxInProgress s = Infinity \<longrightarrow> \<not> paused s)"
proof -
  from reachable_listeners [OF assms]
  have listening: "0 < messageListeners s \<Longrightarrow> \<not> closed s"
    by auto
  have resume:
    "refreshPausedStatus (s\<lparr> inProgressAckIds := ids \<rparr>) =
       ([Request_pull False (m - int (length ids)) StartPulling_cb],
        s\<lparr> inProgressAckIds := ids, paused := False \<rparr>)"
    if "paused s" and "0 < messageListeners s" and "maxInProgress s = Num m"
      and "int (length ids) < m" for ids
    using that listening
    by (simp add: refreshPausedStatus_def startPulling_def pull_def inProgressCount_def
        Let_def)
  have skip: "message_skip a s =
      ([Request_pull False (m - int (length (AList.delete a (inProgressAckIds s))))
          StartPulling_cb],
       s\<lparr> inProgressAckIds := AList.delete a (inProgressAckIds s), paused := False \<rparr>)"
    if "paused s" and "0 < messageListeners s" and "maxInProgress s = Num m"
      and "int (length (AList.delete a (inProgressAckIds s))) < m"
    using resume [OF that] by (simp add: message_skip_def)
  have acked: "\<exists>acts.
      call_ack_callback cb None resp
          (s\<lparr> inProgressAckIds := fold AList.delete ackIds (inProgressAckIds s),
              paused := False \<rparr>) =
        Inr (acts,
             s\<lparr> inProgressAckIds := fold AList.delete ackIds (inProgressAckIds s),
                 paused := False \<rparr>)
      \<and> ack_response ackIds cb None resp s =
        Inr (Request_pull False
               (m - int (length (fold AList.delete ackIds (inProgressAckIds s))))
               StartPulling_cb # acts,
             s\<lparr> inProgressAckIds := fold AList.delete ackIds (inProgressAckIds s),
                 paused := False \<rparr>)"
    if "paused s" and "0 < messageListeners s" and "maxInProgress s = Num m"
      and "int (length (fold AList.delete ackIds (inProgressAckIds s))) < m"
  proof -
    let ?s1 = "s\<lparr> inProgressAckIds := fold AList.delete ackIds (inProgressAckIds s),
                 paused := False \<rparr>"
    obtain acts where c: "call_ack_callback cb None resp ?s1 = Inr (acts, ?s1)"
      using call_ack_callback_handled [of None ?s1 cb resp] by auto
    with resume [OF that] show ?thesis
      by (simp add: ack_response_def)
  qed
  from skip acked reachable_unbounded [OF assms] show ?thesis
    by blast
qed

theorem ack_or_skip_resumes_paused_witness:
  "reachable id max1_options paused_max1
   \<and> paused paused_max1 \<and> 0 < messageListeners paused_max1
   \<and> maxInProgress paused_max1 = Num 1
   \<and> int (length (AList.delete ''a1'' (inProgressAckIds paused_max1))) < 1
   \<and> int (length (fold AList.delete [''a1''] (inProgressAckIds paused_max1))) < 1
   \<and> message_skip ''a1'' paused_max1 = ([Request_pull False 1 StartPulling_cb], open_max1)
   \<and> ack_response [''a1''] (AckCaller 0) None response_none paused_max1 =
       Inr ([Request_pull False 1 StartPulling_cb, Call_ack_callback 0 None response_none],
            open_max1)
   \<and> reachable id default_options (Subscription default_options)
   \<and> maxInProgress (Subscription default_options) = Infinity
   \<and> \<not> paused (Subscription default_options)"
  using ack_or_skip_resumes_paused [OF reachable_paused_max1, of 1 "''a1''" "[''a1'']"
      "AckCaller 0" response_none]
    ack_or_skip_resumes_paused [OF reach_init [of id default_options], of 1 "''a1''" "[]"
      Noop response_none]
    reachable_paused_max1 reach_init [of id default_options]
  by (simp add: paused_max1_def open_max1_def Subscription_def default_options_def)

section \<open>Listeners\<close>

text \<open>
  C5, as the code has it. Registering a \<^verbatim>\<open>message\<close> listener on a closed subscription
  whose \<^verbatim>\<open>newListener\<close> handler is still registered (no successful \<^verbatim>\<open>delete\<close> has
  removed it) sets \<^verbatim>\<open>closed\<close> to false and starts exactly one pull cycle: it is one
  call of \<^verbatim>\<open>startPulling_\<close> on the reopened subscription, which issues one pull request,
  or none when that cycle finds the subscription paused. Removing the last \<^verbatim>\<open>message\<close>
  listener sets \<^verbatim>\<open>closed\<close> to true. While the subscription is closed with no listener
  counted, no turn of the event loop other than the registration of a \<^verbatim>\<open>message\<close>
  listener makes the poll loop issue a pull request, and the subscription stays closed: a
  cycle in flight completes, its timer fires, and nothing more is pulled.
\<close>

theorem first_listener_starts_last_listener_stops:
  "(closed s \<and> hooked s \<longrightarrow>
      addListener ''message'' s =
        startPulling (s\<lparr> messageListeners := messageListeners s + 1, closed := False \<rparr>)
      \<and> addListener ''message'' s =
        ((if paused s then []
          else [Request_pull False
                  (case maxInProgress s of
                     Num n \<Rightarrow> n - int (length (inProgressAckIds s))
                   | Infinity \<Rightarrow> 1000)
                  StartPulling_cb]),
         s\<lparr> messageListeners := messageListeners s + 1, closed := False \<rparr>))
   \<and> (hooked s \<and> messageListeners s = 1 \<longrightarrow>
      removeListener ''message'' s = s\<lparr> messageListeners := 0, closed := True \<rparr>)
   \<and> (closed s \<and> messageListeners s = 0 \<and> enabled e s \<and> e \<noteq> NewListener ''message''
        \<and> step decode e s = Inr (acts, s') \<longrightarrow>
      closed s' \<and> messageListeners s' = 0 \<and> filter is_loop_pull acts = [])"
proof -
  have cycle: "addListener ''message'' s =
        startPulling (s\<lparr> messageListeners := messageListeners s + 1, closed := False \<rparr>)"
    if "closed s" and "hooked s"
    using that by (simp add: addListener_def on_newListener_def)
  have first: "addListener ''message'' s =
        ((if paused s then [] else [Request_pull False (room s) StartPulling_cb]),
         s\<lparr> messageListeners := messageListeners s + 1, closed := False \<rparr>)"
    if "closed s" and "hooked s"
    using that addListener_fst [of "''message''" s] addListener_snd [of "''message''" s]
    by (simp add: prod_eq_iff)
  have last: "removeListener ''message'' s = s\<lparr> messageListeners := 0, closed := True \<rparr>"
    if "hooked s" and "messageListeners s = 1"
    using that by (simp add: removeListener_def on_removeListener_def)
  have dormant: "closed s' \<and> messageListeners s' = 0 \<and> filter is_loop_pull acts = []"
    if c: "closed s" and l: "messageListeners s = 0" and en: "enabled e s"
      and ne: "e \<noteq> NewListener ''message''" and st: "step decode e s = Inr (acts, s')"
    using step_snd [OF st] step_loop_pulls [OF st] c l en ne
    by (cases e)
       (auto simp: addListener_fst addListener_snd removeListener_def on_removeListener_def
          startPulling_fst refreshPausedStatus_fst refreshPausedStatus_snd decorateAll_snd
          removeAllListeners_fields split: if_splits)
  from cycle first last dormant show ?thesis
    unfolding room_def by blast
qed

text \<open>
  A subscription is deleted; it is closed and its handlers are gone. Registering a
  \<^verbatim>\<open>message\<close> listener then changes nothing: \<^verbatim>\<open>closed\<close> stays true and no cycle starts.
\<close>

theorem first_listener_after_delete_stays_closed:
  "run id [CallDelete None, DeleteResponse None None response_none]
       (Subscription default_options) =
     Inr ([Request_delete None], deleted_default)
   \<and> closed deleted_default \<and> messageListeners deleted_default = 0
   \<and> step id (NewListener ''message'') deleted_default = Inr ([], deleted_default)"
  by (simp add: delete_def delete_response_def removeAllListeners_def addListener_def
      Subscription_def default_options_def deleted_default_def)

theorem first_listener_starts_last_listener_stops_witness:
  "closed (Subscription default_options) \<and> hooked (Subscription default_options)
   \<and> addListener ''message'' (Subscription default_options) =
       ([Request_pull False 1000 StartPulling_cb], open_default)
   \<and> closed paused_closed_max1 \<and> hooked paused_closed_max1
   \<and> addListener ''message'' paused_closed_max1 = ([], paused_max1)
   \<and> hooked open_max1 \<and> messageListeners open_max1 = 1
   \<and> removeListener ''message'' open_max1 = open_max1\<lparr> messageListeners := 0, closed := True \<rparr>
   \<and> messageListeners paused_closed_max1 = 0
   \<and> enabled Timer paused_closed_max1 \<and> Timer \<noteq> NewListener ''message''
   \<and> step id Timer paused_closed_max1 = Inr ([], paused_closed_max1)
   \<and> filter is_loop_pull [] = []"
proof -
  have computed:
    "addListener ''message'' (Subscription default_options) =
       ([Request_pull False 1000 StartPulling_cb], open_default)"
    "addListener ''message'' paused_closed_max1 = ([], paused_max1)"
    "step id Timer paused_closed_max1 = Inr ([], paused_closed_max1)"
    by (simp_all add: addListener_def on_newListener_def startPulling_def pull_def
        Subscription_def default_options_def open_default_def paused_max1_def
        paused_closed_max1_def)
  show ?thesis
    using first_listener_starts_last_listener_stops [of "Subscription default_options" Timer
        id "[]" "Subscription default_options"]
      first_listener_starts_last_listener_stops [of open_max1 Timer id "[]" open_max1]
      first_listener_starts_last_listener_stops [of paused_closed_max1 Timer id "[]"
        paused_closed_max1]
      computed
    by (simp add: Subscription_def default_options_def open_max1_def paused_closed_max1_def)
qed

section \<open>The acknowledgment tracker\<close>

lemma keys_update: "fst ` set (AList.update k v al) = insert k (fst ` set al)"
  by (simp add: dom_update)

lemma keys_delete: "fst ` set (AList.delete k al) = fst ` set al - {k}"
  using delete_keys [of k al] by (metis set_map set_removeAll)

lemma keys_fold_delete: "fst ` set (fold AList.delete ks al) = fst ` set al - set ks"
  by (induction ks arbitrary: al) (auto simp: keys_delete)

lemma distinct_fold_delete:
  "distinct (map fst al) \<Longrightarrow> distinct (map fst (fold AList.delete ks al))"
  by (induction ks arbitrary: al) (simp_all add: distinct_delete)

lemma keys_set_true:
  "fst ` set (set_true k al) = (if k = ''__proto__'' then fst ` set al else insert k (fst ` set al))"
  by (simp add: set_true_def keys_update)

lemma distinct_set_true:
  "distinct (map fst al) \<Longrightarrow> distinct (map fst (set_true k al))"
  by (simp add: set_true_def distinct_update)

lemma keys_fold_set_true:
  "fst ` set (fold (\<lambda>m. set_true (ackId m)) ms al) =
     fst ` set al \<union> (ackId ` set ms - {''__proto__''})"
  by (induction ms arbitrary: al) (auto simp: keys_set_true)

lemma ack_response_success:
  "\<exists>acts s'. ack_response ackIds cb None resp s = Inr (acts, s')"
proof -
  let ?s1 = "snd (refreshPausedStatus
    (s\<lparr> inProgressAckIds := fold AList.delete ackIds (inProgressAckIds s) \<rparr>))"
  obtain acts where "call_ack_callback cb None resp ?s1 = Inr (acts, ?s1)"
    using call_ack_callback_handled [of None ?s1 cb resp] by auto
  then show ?thesis
    by (simp add: ack_response_def Let_def case_prod_unfold)
qed

lemma apply_op_inProgressAckIds:
  "inProgressAckIds (apply_op op s) =
     (case op of
        Track m \<Rightarrow> set_true (ackId m) (inProgressAckIds s)
      | ResolveSkip a \<Rightarrow> AList.delete a (inProgressAckIds s)
      | ResolveAck ackIds cb resp \<Rightarrow> fold AList.delete ackIds (inProgressAckIds s))"
proof (cases op)
  case (ResolveAck ackIds cb resp)
  obtain acts s' where r: "ack_response ackIds cb None resp s = Inr (acts, s')"
    using ack_response_success [of ackIds cb resp s] by auto
  with ack_response_snd [OF r] ResolveAck show ?thesis
    by (simp add: refreshPausedStatus_snd)
qed (simp_all add: decorateMessage_def message_skip_def refreshPausedStatus_snd)

lemma apply_op_tracks:
  assumes "distinct (map fst (inProgressAckIds s))"
    and "\<forall>m. op = Track m \<longrightarrow> ackId m \<noteq> ''__proto__''"
  shows "distinct (map fst (inProgressAckIds (apply_op op s)))
       \<and> fst ` set (inProgressAckIds (apply_op op s)) =
           spec_outstanding op (fst ` set (inProgressAckIds s))"
  using assms apply_op_inProgressAckIds [of op s]
  by (cases op)
     (simp_all del: apply_op.simps add: distinct_set_true distinct_delete
        distinct_fold_delete keys_set_true keys_delete keys_fold_delete)

lemma fold_apply_op_tracks:
  assumes "distinct (map fst (inProgressAckIds s))"
    and "''__proto__'' \<notin> set (tracked_ackIds ops)"
  shows "distinct (map fst (inProgressAckIds (fold apply_op ops s)))
       \<and> fst ` set (inProgressAckIds (fold apply_op ops s)) =
           fold spec_outstanding ops (fst ` set (inProgressAckIds s))"
  using assms
proof (induction ops arbitrary: s)
  case Nil
  then show ?case by simp
next
  case (Cons op ops)
  have "\<forall>m. op = Track m \<longrightarrow> ackId m \<noteq> ''__proto__''"
    using Cons.prems(2) by auto
  moreover have "''__proto__'' \<notin> set (tracked_ackIds ops)"
    using Cons.prems(2) by (cases op) auto
  ultimately show ?case
    using apply_op_tracks [OF Cons.prems(1), of op] Cons.IH [of "apply_op op s"]
    by simp
qed

lemma inProgressCount_card:
  "distinct (map fst (inProgressAckIds s)) \<Longrightarrow>
     inProgressCount s = int (card (fst ` set (inProgressAckIds s)))"
  using distinct_card [of "map fst (inProgressAckIds s)"]
  by (simp add: inProgressCount_def)

text \<open>
  What holds of the tracker: as long as no tracked ackId is \<^verbatim>\<open>__proto__\<close>, the number of
  keys is the number of distinct ackIds tracked and not yet resolved. Resolving an ackId that
  is not a key changes nothing, and \<^verbatim>\<open>message.ack\<close> never throws.
\<close>

lemma tracker_count_without_proto:
  assumes "''__proto__'' \<notin> set (tracked_ackIds ops)"
  shows "inProgressCount (fold apply_op ops (Subscription opts)) =
     int (card (fold spec_outstanding ops {}))"
proof -
  have d: "distinct (map fst (inProgressAckIds (Subscription opts)))"
    by (simp add: Subscription_def)
  have e: "fst ` set (inProgressAckIds (Subscription opts)) = {}"
    by (simp add: Subscription_def)
  from fold_apply_op_tracks [OF d assms] e show ?thesis
    by (simp add: inProgressCount_card)
qed

lemma resolve_untracked_noop:
  assumes "a \<notin> fst ` set (inProgressAckIds s)"
  shows "inProgressAckIds (snd (message_skip a s)) = inProgressAckIds s"
    and "inProgressAckIds (apply_op (ResolveAck [a] cb resp) s) = inProgressAckIds s"
    and "message_ack a callback s =
        Inr ([Request_acknowledge [a] (case callback of Some c \<Rightarrow> c | None \<Rightarrow> Noop)], s)"
  using assms apply_op_inProgressAckIds [of "ResolveAck [a] cb resp" s]
  by (simp_all del: apply_op.simps
      add: message_skip_def refreshPausedStatus_snd message_ack_def ack_def)

text \<open>
  C9, where the code departs from it. A delivered message whose ackId is \<^verbatim>\<open>__proto__\<close>
  is decorated without becoming a key of \<^verbatim>\<open>inProgressAckIds\<close>: one ackId is tracked and
  not resolved, and the count is 0. A subscription with \<^verbatim>\<open>maxInProgress\<close> 1 that
  delivers this message is left as it was, not paused.
\<close>

theorem tracker_misses_proto_key:
  "inProgressCount (fold apply_op [Track msg_proto] (Subscription default_options)) = 0
   \<and> int (card (fold spec_outstanding [Track msg_proto] {})) = 1
   \<and> step id (PullResponse StartPulling_cb None response_proto) open_max1 =
       Inr ([Emit_message msg_proto response_proto, SetTimeout 10], open_max1)"
  by (simp add: decorateMessage_def set_true_def inProgressCount_def msg_proto_def
      Subscription_def default_options_def pull_response_def response_proto_def raw_proto_def
      formatMessage_def refreshPausedStatus_def startPulling_callback_def open_max1_def)

section \<open>Closing and automatic acknowledgment\<close>

lemma formatMessage_ackId [simp]: "ackId (formatMessage decode msg) = raw_ackId msg"
  by (simp add: formatMessage_def split: option.splits)



text \<open>
  C2, as the code has it. While \<^verbatim>\<open>closed\<close> is true the poll loop starts no pull: a timer
  that fires does nothing. A pull already in flight completes on a closed subscription as on
  an open one: the subscription stays closed, every received ackId is assigned as a key of
  \<^verbatim>\<open>inProgressAckIds\<close> (which \<^verbatim>\<open>__proto__\<close> alone does not become), and the loop's
  callback passes every message to \<^verbatim>\<open>emit('message', ...)\<close> and arms the timer (with
  \<^verbatim>\<open>autoAck\<close> and at least one message, the acknowledge request is issued instead).
\<close>

theorem closed_subscription_completes_in_flight_pull:
  assumes "closed s"
    and "map (formatMessage decode) (arrify (receivedMessages response)) = messages"
  shows "step decode Timer s = Inr ([], s)
       \<and> (\<exists>acts s'. pull_response decode StartPulling_cb None response s = Inr (acts, s')
            \<and> closed s'
            \<and> fst ` set (inProgressAckIds s') =
                fst ` set (inProgressAckIds s) \<union> (ackId ` set messages - {''__proto__''})
            \<and> (\<not> (autoAck s \<and> messages \<noteq> []) \<longrightarrow>
                 acts = map (\<lambda>m. Emit_message m response) messages @ [SetTimeout (interval s)])
            \<and> (autoAck s \<and> messages \<noteq> [] \<longrightarrow>
                 acts = [Request_acknowledge (map ackId messages)
                           (AutoAck StartPulling_cb messages response)]))"
proof -
  let ?s1 = "snd (decorateAll messages s)"
  let ?s2 = "snd (refreshPausedStatus ?s1)"
  have timer: "step decode Timer s = Inr ([], s)"
    using assms(1) by (simp add: startPulling_def)
  have quiet: "fst (refreshPausedStatus ?s1) = []"
    using assms(1) by (simp add: refreshPausedStatus_fst decorateAll_snd)
  have fields: "closed ?s2" "autoAck ?s2 = autoAck s" "interval ?s2 = interval s"
    "fst ` set (inProgressAckIds ?s2) =
       fst ` set (inProgressAckIds s) \<union> (ackId ` set messages - {''__proto__''})"
    using assms(1) by (simp_all add: refreshPausedStatus_snd decorateAll_snd keys_fold_set_true)
  have plain: "pull_response decode StartPulling_cb None response s =
      Inr (map (\<lambda>m. Emit_message m response) messages @ [SetTimeout (interval s)], ?s2)"
    if "\<not> (autoAck s \<and> messages \<noteq> [])"
    using that assms(2) quiet fields(2,3)
    by (auto simp: pull_response_def case_prod_unfold startPulling_callback_def)
  have auto_acked: "pull_response decode StartPulling_cb None response s =
      Inr ([Request_acknowledge (map ackId messages)
              (AutoAck StartPulling_cb messages response)], ?s2)"
    if "autoAck s \<and> messages \<noteq> []"
    using that assms(2) quiet fields(2)
    by (auto simp: pull_response_def case_prod_unfold ack_def)
  show ?thesis
  proof (cases "autoAck s \<and> messages \<noteq> []")
    case True
    with timer auto_acked fields(1,4) show ?thesis by auto
  next
    case False
    with timer plain fields(1,4) show ?thesis by auto
  qed
qed

text \<open>
  A listener is registered and removed again while the first pull is in flight; the pull then
  completes on the closed subscription with two messages.
\<close>

theorem closed_subscription_still_tracks_and_emits:
  "run id [NewListener ''message'', RemoveListener ''message'']
       (Subscription default_options) =
     Inr ([Request_pull False 1000 StartPulling_cb], Subscription default_options)
   \<and> closed (Subscription default_options)
   \<and> step id (PullResponse StartPulling_cb None response_two) (Subscription default_options) =
     Inr ([Emit_message msg1 response_two, Emit_message msg2 response_two, SetTimeout 10],
          (Subscription default_options)
            \<lparr> inProgressAckIds := [(''a1'', True), (''a2'', True)] \<rparr>)"
  by (simp add: addListener_def removeListener_def on_newListener_def on_removeListener_def
      startPulling_def pull_def inProgressCount_def pull_response_def response_two_def
      raw1_def raw2_def msg1_def msg2_def formatMessage_def decorateMessage_def set_true_def
      refreshPausedStatus_def startPulling_callback_def Subscription_def default_options_def)

theorem closed_subscription_completes_in_flight_pull_witness:
  "closed (Subscription default_options)
   \<and> map (formatMessage id) (arrify (receivedMessages response_two)) = [msg1, msg2]
   \<and> step id Timer (Subscription default_options) = Inr ([], Subscription default_options)
   \<and> (\<exists>acts s'. pull_response id StartPulling_cb None response_two
          (Subscription default_options) = Inr (acts, s')
        \<and> closed s'
        \<and> fst ` set (inProgressAckIds s') = {''a1'', ''a2''}
        \<and> acts = [Emit_message msg1 response_two, Emit_message msg2 response_two,
                   SetTimeout 10])"
proof -
  have c: "closed (Subscription default_options)"
    by (simp add: Subscription_def)
  have m: "map (formatMessage id) (arrify (receivedMessages response_two)) = [msg1, msg2]"
    by (simp add: response_two_def raw1_def raw2_def msg1_def msg2_def formatMessage_def)
  have extra: "\<not> autoAck (Subscription default_options)"
    "interval (Subscription default_options) = 10"
    "inProgressAckIds (Subscription default_options) = []"
    "ackId msg1 = ''a1''" "ackId msg2 = ''a2''"
    by (simp_all add: Subscription_def default_options_def msg1_def msg2_def)
  have keys: "{''a1'', ''a2''} - {''__proto__''} = {''a1'', ''a2''}"
    by auto
  from closed_subscription_completes_in_flight_pull [OF c m] c m extra keys
  show ?thesis by auto
qed




end
